theory Spec2Isabelle
  imports Complex_Main
begin

section \<open>Data model\<close>

text \<open>
  The Go programs work on \<^verbatim>\<open>float64\<close>. Durations, speeds and payloads are modelled as
  real numbers: rounding is abstracted away, and the two places where the exceptional
  values of IEEE arithmetic matter (a division by zero and a logarithm of zero) are
  modelled separately below with an explicit type of results.

  \<^verbatim>\<open>type State struct { state string; T float64 }\<close>
\<close>

record State =
  state :: string
  T :: real

text \<open>
  The lines the simulator writes to standard output: \<^verbatim>\<open>State %d: %s, T: %.2f\<close> in
  \<^verbatim>\<open>SimulateDownload\<close> and \<^verbatim>\<open>Downloading for %.2f seconds at %.2f Mbps\<close> in
  \<^verbatim>\<open>DownloadFile\<close>.
\<close>

datatype out_line = StateLine nat string real | DownloadLine real real

text \<open>
  The package-level variable \<^verbatim>\<open>var remainingSize float64\<close> and the output written so
  far make up the state that the simulator reads and updates.
\<close>

record globals =
  remainingSize :: real
  stdout :: "out_line list"

section \<open>The download simulator\<close>

text \<open>
  \<^verbatim>\<open>func DownloadFile(value float64, speed float64) float64\<close>: prints one line,
  subtracts \<^verbatim>\<open>speed * value\<close> from the global and returns the global.
\<close>

definition DownloadFile :: "real \<Rightarrow> real \<Rightarrow> globals \<Rightarrow> real \<times> globals" where
  "DownloadFile val speed g =
     (let g1 = g\<lparr>stdout := stdout g @ [DownloadLine val speed]\<rparr>;
          g2 = g1\<lparr>remainingSize := remainingSize g1 - speed * val\<rparr>
      in (remainingSize g2, g2))"

text \<open>
  \<^verbatim>\<open>func SimulateDownload(states []State, wifiSpeed, mobileSpeed float64)\<close>: the
  \<^verbatim>\<open>for i, s := range states\<close> loop, with the loop index \<open>i\<close> as an argument. The test
  \<^verbatim>\<open>remainingSize <= 0\<close> comes after the call of \<^verbatim>\<open>DownloadFile\<close>, whose result is
  discarded.
\<close>

fun SimulateDownload_loop :: "nat \<Rightarrow> State list \<Rightarrow> real \<Rightarrow> real \<Rightarrow> globals \<Rightarrow> globals" where
  "SimulateDownload_loop i [] wifiSpeed mobileSpeed g = g"
| "SimulateDownload_loop i (s # ss) wifiSpeed mobileSpeed g =
     (let g1 = g\<lparr>stdout := stdout g @ [StateLine (i + 1) (state s) (T s)]\<rparr>;
          g2 = (if state s = ''Connect''
                then (let totalSpeed = wifiSpeed + mobileSpeed
                      in snd (DownloadFile (T s) totalSpeed g1))
                else snd (DownloadFile (T s) mobileSpeed g1))
      in if remainingSize g2 \<le> 0 then g2
         else SimulateDownload_loop (i + 1) ss wifiSpeed mobileSpeed g2)"

definition SimulateDownload :: "State list \<Rightarrow> real \<Rightarrow> real \<Rightarrow> globals \<Rightarrow> globals" where
  "SimulateDownload states wifiSpeed mobileSpeed g =
     SimulateDownload_loop 0 states wifiSpeed mobileSpeed g"

section \<open>The session sequence generator\<close>

text \<open>
  \<^verbatim>\<open>func InverseCDFExponential(u, val float64) float64 { return (-val) * math.Log(1-u) }\<close>.
  Every call site passes \<^verbatim>\<open>rand.Float64()\<close>, which lies in \<open>[0, 1)\<close>, so that
  \<open>1 - u\<close> is positive and the logarithm is the real one.
\<close>

definition InverseCDFExponential :: "real \<Rightarrow> real \<Rightarrow> real" where
  "InverseCDFExponential u val = (- val) * ln (1 - u)"

definition NextState :: "string \<Rightarrow> string" where
  "NextState st = (if st = ''disconnect'' then ''connect'' else ''disconnect'')"

text \<open>\<^verbatim>\<open>SumOfTinState\<close>: the loop \<^verbatim>\<open>sum := 0.0; for _, s := range states { sum += s.T }\<close>.\<close>

definition SumOfTinState :: "State list \<Rightarrow> real" where
  "SumOfTinState states = foldl (\<lambda>sum s. sum + T s) 0 states"

text \<open>
  \<^verbatim>\<open>GenerateBand\<close> draws one number from the global random source in every iteration of
  its \<^verbatim>\<open>for { ... }\<close> loop. The source is modelled as the list of the numbers that
  \<^verbatim>\<open>rand.Float64()\<close> will return, consumed from the front; the list is also the fuel
  of the loop, which has no bound of its own: the result is \<open>None\<close> when the loop has
  used all the draws given without reaching its \<^verbatim>\<open>break\<close>. A run that ends returns
  the sequence and the draws left over.

  The repository has two versions of the function. This is the one that clamps the
  raw dwell time and appends only a positive remainder.
\<close>

fun GenerateBand_loop ::
  "real \<Rightarrow> real \<Rightarrow> real \<Rightarrow> string \<Rightarrow> State list \<Rightarrow> real list \<Rightarrow> (State list \<times> real list) option"
where
  "GenerateBand_loop expectedValueT0 expectedValueT1 Ts currentState states [] = None"
| "GenerateBand_loop expectedValueT0 expectedValueT1 Ts currentState states (u # us) =
     (if currentState = ''disconnect'' then
        (let t0 = InverseCDFExponential u expectedValueT0;
             t0 = (if t0 > Ts then Ts else t0)
         in if SumOfTinState states + t0 \<ge> Ts then
              (let remaining = Ts - SumOfTinState states
               in Some (if remaining > 0
                        then states @ [\<lparr>state = ''Disconnect'', T = remaining\<rparr>]
                        else states, us))
            else GenerateBand_loop expectedValueT0 expectedValueT1 Ts (NextState currentState)
                   (states @ [\<lparr>state = ''Disconnect'', T = t0\<rparr>]) us)
      else
        (let t1 = InverseCDFExponential u expectedValueT1;
             t1 = (if t1 > Ts then Ts else t1)
         in if SumOfTinState states + t1 \<ge> Ts then
              (let remaining = Ts - SumOfTinState states
               in Some (if remaining > 0
                        then states @ [\<lparr>state = ''Connect'', T = remaining\<rparr>]
                        else states, us))
            else GenerateBand_loop expectedValueT0 expectedValueT1 Ts (NextState currentState)
                   (states @ [\<lparr>state = ''Connect'', T = t1\<rparr>]) us))"

definition GenerateBand ::
  "string \<Rightarrow> real \<Rightarrow> real \<Rightarrow> real \<Rightarrow> real list \<Rightarrow> (State list \<times> real list) option"
where
  "GenerateBand initialState expectedValueT0 expectedValueT1 Ts rand =
     GenerateBand_loop expectedValueT0 expectedValueT1 Ts initialState [] rand"

text \<open>
  The version of \<^verbatim>\<open>with_2.4g/second_method.go\<close> (the third file has the same text):
  the disconnect branch appends the raw dwell time and tests afterwards, the connect
  branch appends the remainder without testing its sign.
\<close>

fun GenerateBand_2nd_loop ::
  "real \<Rightarrow> real \<Rightarrow> real \<Rightarrow> string \<Rightarrow> State list \<Rightarrow> real list \<Rightarrow> (State list \<times> real list) option"
where
  "GenerateBand_2nd_loop expectedValueT0 expectedValueT1 Ts currentState states [] = None"
| "GenerateBand_2nd_loop expectedValueT0 expectedValueT1 Ts currentState states (u # us) =
     (if currentState = ''disconnect'' then
        (let t0 = InverseCDFExponential u expectedValueT0;
             states = states @ [\<lparr>state = ''Disconnect'', T = t0\<rparr>]
         in if SumOfTinState states \<ge> Ts then Some (states, us)
            else GenerateBand_2nd_loop expectedValueT0 expectedValueT1 Ts
                   (NextState currentState) states us)
      else
        (let t1 = InverseCDFExponential u expectedValueT1
         in if SumOfTinState states + t1 \<ge> Ts then
              (let downloadable = Ts - SumOfTinState states
               in Some (states @ [\<lparr>state = ''Connect'', T = downloadable\<rparr>], us))
            else GenerateBand_2nd_loop expectedValueT0 expectedValueT1 Ts
                   (NextState currentState) (states @ [\<lparr>state = ''Connect'', T = t1\<rparr>]) us))"

definition GenerateBand_2nd ::
  "string \<Rightarrow> real \<Rightarrow> real \<Rightarrow> real \<Rightarrow> real list \<Rightarrow> (State list \<times> real list) option"
where
  "GenerateBand_2nd initialState expectedValueT0 expectedValueT1 Ts rand =
     GenerateBand_2nd_loop expectedValueT0 expectedValueT1 Ts initialState [] rand"

section \<open>Completion test of the driver\<close>

text \<open>
  After \<^verbatim>\<open>SimulateDownload\<close> returns, \<^verbatim>\<open>main\<close> reports
  \<^verbatim>\<open>if remainingSize > 0 { "File Download Incomplete" } else { "File Download Complete" }\<close>.
\<close>

definition downloadComplete :: "globals \<Rightarrow> bool" where
  "downloadComplete g = (\<not> remainingSize g > 0)"

section \<open>Exceptional values of float64\<close>

text \<open>
  A division by zero and a logarithm of zero do not panic in Go: they give an infinity or
  a NaN. Where a claim depends on that, the result is a value of this type. Operands are
  finite reals; a zero is the positive zero, as \<^verbatim>\<open>rand.Float64()\<close>, \<^verbatim>\<open>len\<close> and
  \<^verbatim>\<open>math.Pow(0, y)\<close> with \<open>y > 0\<close> give it.
\<close>

datatype float64 = Finite real | PosInf | NegInf | NaN

definition fdiv :: "real \<Rightarrow> real \<Rightarrow> float64" where
  "fdiv a b =
     (if b \<noteq> 0 then Finite (a / b)
      else if a > 0 then PosInf else if a < 0 then NegInf else NaN)"

text \<open>The comparison \<^verbatim>\<open>x > c\<close> with a finite \<open>c\<close>: false on a NaN.\<close>

fun fgt :: "float64 \<Rightarrow> real \<Rightarrow> bool" where
  "fgt (Finite a) c = (a > c)"
| "fgt PosInf c = True"
| "fgt NegInf c = False"
| "fgt NaN c = False"

section \<open>The samplers on the whole range of the draw\<close>

text \<open>
  \<^verbatim>\<open>func Pareto(alpha, xm float64) float64 { u := rand.Float64(); return xm / math.Pow(u, 1.0/alpha) }\<close>.
  The function takes one draw from the random source (the list of the numbers to come,
  as in \<open>GenerateBand\<close>; \<open>None\<close> when the model was given no draw). The shape
  \<open>alpha\<close> is positive (\<^verbatim>\<open>main\<close> passes \<open>2\<close> and \<open>25/3\<close>) and \<open>0 \<le> u\<close>, where
  \<^verbatim>\<open>math.Pow(u, 1/alpha)\<close> is \<open>u powr (1 / alpha)\<close>, zero at \<open>u = 0\<close>. Rounding,
  and with it overflow and underflow of the power, is not modelled.
\<close>

fun Pareto :: "real \<Rightarrow> real \<Rightarrow> real list \<Rightarrow> (float64 \<times> real list) option" where
  "Pareto alpha xm [] = None"
| "Pareto alpha xm (u # us) = Some (fdiv xm (u powr (1 / alpha)), us)"

text \<open>
  \<^verbatim>\<open>InverseCDFExponential\<close> with the exceptional cases of \<^verbatim>\<open>math.Log\<close>:
  \<^verbatim>\<open>Log(0) = -Inf\<close>, \<^verbatim>\<open>Log(x) = NaN\<close> for \<open>x < 0\<close>, and the product of \<open>- val\<close> with
  \<open>-Inf\<close>.
\<close>

definition InverseCDFExponential_f64 :: "real \<Rightarrow> real \<Rightarrow> float64" where
  "InverseCDFExponential_f64 u val =
     (if 1 - u > 0 then Finite (InverseCDFExponential u val)
      else if 1 - u = 0
           then (if val > 0 then PosInf else if val < 0 then NegInf else NaN)
      else NaN)"

section \<open>The bandwidth flag\<close>

text \<open>
  \<^verbatim>\<open>func MeasureBandwidth(states []State, wifiSpeed, mobileSpeed float64) int\<close>: the loop
  that adds to \<^verbatim>\<open>totalb\<close>, the division \<^verbatim>\<open>totalb / float64(len(states))\<close> and the
  comparison with 40.
\<close>

definition MeasureBandwidth_totalb :: "State list \<Rightarrow> real \<Rightarrow> real \<Rightarrow> real" where
  "MeasureBandwidth_totalb states wifiSpeed mobileSpeed =
     foldl (\<lambda>totalb s.
              if state s = ''Connect'' then totalb + (wifiSpeed + mobileSpeed)
              else if state s = ''Disconnect'' then totalb + mobileSpeed
              else totalb) 0 states"

definition avgBandwidth :: "State list \<Rightarrow> real \<Rightarrow> real \<Rightarrow> float64" where
  "avgBandwidth states wifiSpeed mobileSpeed =
     fdiv (MeasureBandwidth_totalb states wifiSpeed mobileSpeed) (real (length states))"

definition MeasureBandwidth :: "State list \<Rightarrow> real \<Rightarrow> real \<Rightarrow> int" where
  "MeasureBandwidth states wifiSpeed mobileSpeed =
     (if fgt (avgBandwidth states wifiSpeed mobileSpeed) 40 then 1 else 0)"

section \<open>Notions used to state the properties\<close>

text \<open>
  The effective speed of an interval, in the words of the specification:
  \<open>wifiSpeed + mobileSpeed\<close> if the kind is Connect, else \<open>mobileSpeed\<close> alone.
\<close>

definition effectiveSpeed :: "real \<Rightarrow> real \<Rightarrow> State \<Rightarrow> real" where
  "effectiveSpeed wifiSpeed mobileSpeed s =
     (if state s = ''Connect'' then wifiSpeed + mobileSpeed else mobileSpeed)"

text \<open>The two lines that the simulator prints for the interval with loop index \<open>i\<close>.\<close>

definition interval_log :: "real \<Rightarrow> real \<Rightarrow> nat \<times> State \<Rightarrow> out_line list" where
  "interval_log wifiSpeed mobileSpeed p =
     [StateLine (fst p + 1) (state (snd p)) (T (snd p)),
      DownloadLine (T (snd p)) (effectiveSpeed wifiSpeed mobileSpeed (snd p))]"

text \<open>The state after one interval has been processed, before the test.\<close>

definition processed :: "nat \<Rightarrow> State \<Rightarrow> real \<Rightarrow> real \<Rightarrow> globals \<Rightarrow> globals" where
  "processed i s wifiSpeed mobileSpeed g =
     g\<lparr>stdout := stdout g @ interval_log wifiSpeed mobileSpeed (i, s),
       remainingSize := remainingSize g - effectiveSpeed wifiSpeed mobileSpeed s * T s\<rparr>"

text \<open>The label that the generator appends for a value of \<^verbatim>\<open>currentState\<close>.\<close>

definition kindOf :: "string \<Rightarrow> string" where
  "kindOf currentState = (if currentState = ''disconnect'' then ''Disconnect'' else ''Connect'')"

section \<open>Properties of the download simulator\<close>

lemma processed_sel [simp]:
  "remainingSize (processed i s w m g) = remainingSize g - effectiveSpeed w m s * T s"
  "stdout (processed i s w m g) = stdout g @ interval_log w m (i, s)"
  by (simp_all add: processed_def)

lemma loop_Cons:
  "SimulateDownload_loop i (s # ss) w m g =
     (if remainingSize (processed i s w m g) \<le> 0 then processed i s w m g
      else SimulateDownload_loop (Suc i) ss w m (processed i s w m g))"
  by (simp add: processed_def interval_log_def effectiveSpeed_def DownloadFile_def Let_def)

lemma loop_append:
  "SimulateDownload_loop i (xs @ ys) w m g =
     (if xs \<noteq> [] \<and> remainingSize (SimulateDownload_loop i xs w m g) \<le> 0
      then SimulateDownload_loop i xs w m g
      else SimulateDownload_loop (i + length xs) ys w m (SimulateDownload_loop i xs w m g))"
proof (induction xs arbitrary: i g)
  case Nil
  show ?case by simp
next
  case (Cons x xs)
  show ?case
  proof (cases "remainingSize (processed i x w m g) \<le> 0")
    case True
    then show ?thesis by (simp add: loop_Cons del: SimulateDownload_loop.simps)
  next
    case False
    then show ?thesis
      using Cons.IH [of "Suc i" "processed i x w m g"]
      by (cases xs) (simp_all add: loop_Cons del: SimulateDownload_loop.simps(2))
  qed
qed

lemma loop_accounting:
  "\<exists>k\<le>length states.
      remainingSize (SimulateDownload_loop i states w m g) =
        remainingSize g - (\<Sum>s\<leftarrow>take k states. effectiveSpeed w m s * T s)
    \<and> stdout (SimulateDownload_loop i states w m g) =
        stdout g @ concat (map (interval_log w m) (enumerate i (take k states)))
    \<and> (\<forall>j. 0 < j \<and> j < k \<longrightarrow>
          0 < remainingSize g - (\<Sum>s\<leftarrow>take j states. effectiveSpeed w m s * T s))
    \<and> (k < length states \<longrightarrow>
          0 < k \<and> remainingSize (SimulateDownload_loop i states w m g) \<le> 0)"
proof (induction states arbitrary: i g)
  case Nil
  show ?case by simp
next
  case (Cons s ss)
  let ?g = "processed i s w m g"
  show ?case
  proof (cases "remainingSize ?g \<le> 0")
    case True
    then have "SimulateDownload_loop i (s # ss) w m g = ?g"
      by (simp add: loop_Cons del: SimulateDownload_loop.simps)
    then show ?thesis
      using True by (intro exI [of _ "Suc 0"]) simp
  next
    case False
    then have eq: "SimulateDownload_loop i (s # ss) w m g = SimulateDownload_loop (Suc i) ss w m ?g"
      by (simp add: loop_Cons del: SimulateDownload_loop.simps)
    from Cons.IH [of "Suc i" ?g] obtain k where k: "k \<le> length ss"
      and r: "remainingSize (SimulateDownload_loop (Suc i) ss w m ?g) =
                remainingSize ?g - (\<Sum>s\<leftarrow>take k ss. effectiveSpeed w m s * T s)"
      and l: "stdout (SimulateDownload_loop (Suc i) ss w m ?g) =
                stdout ?g @ concat (map (interval_log w m) (enumerate (Suc i) (take k ss)))"
      and p: "\<forall>j. 0 < j \<and> j < k \<longrightarrow>
                0 < remainingSize ?g - (\<Sum>s\<leftarrow>take j ss. effectiveSpeed w m s * T s)"
      and e: "k < length ss \<longrightarrow>
                0 < k \<and> remainingSize (SimulateDownload_loop (Suc i) ss w m ?g) \<le> 0"
      by blast
    have pos: "0 < remainingSize g - (\<Sum>s\<leftarrow>take j (s # ss). effectiveSpeed w m s * T s)"
      if "0 < j" "j < Suc k" for j
    proof (cases j)
      case 0
      with that show ?thesis by simp
    next
      case (Suc j')
      show ?thesis
      proof (cases "j' = 0")
        case True
        with Suc False show ?thesis by simp
      next
        case nz: False
        with Suc that p
        have "0 < remainingSize ?g - (\<Sum>s\<leftarrow>take j' ss. effectiveSpeed w m s * T s)"
          by simp
        with Suc show ?thesis by simp
      qed
    qed
    show ?thesis
      unfolding eq
      using k r l e pos by (intro exI [of _ "Suc k"]) simp
  qed
qed

text \<open>
  C2, as stated, fails for an initial payload of zero or less: the loop tests
  \<^verbatim>\<open>remainingSize <= 0\<close> only after \<^verbatim>\<open>DownloadFile\<close>, so it does not stop
  before the first interval. From a payload of \<open>-5\<close> the first interval is processed
  and changes the payload; only the second one is skipped.
\<close>

theorem SimulateDownload_stop_counterexample:
  "SimulateDownload [\<lparr>state = ''Disconnect'', T = 2\<rparr>, \<lparr>state = ''Connect'', T = 1\<rparr>] 60 40
       \<lparr>remainingSize = - 5, stdout = []\<rparr>
     = \<lparr>remainingSize = - 85, stdout = [StateLine 1 ''Disconnect'' 2, DownloadLine 2 40]\<rparr>
   \<and> remainingSize (SimulateDownload
         [\<lparr>state = ''Disconnect'', T = 2\<rparr>, \<lparr>state = ''Connect'', T = 1\<rparr>] 60 40
         \<lparr>remainingSize = - 5, stdout = []\<rparr>)
     \<noteq> remainingSize \<lparr>remainingSize = - 5, stdout = []\<rparr>"
  by (simp add: SimulateDownload_def DownloadFile_def)

text \<open>
  C2, amended. The simulator processes a prefix of the sequence, in order: there is a
  number \<open>k\<close> of processed intervals such that the final payload is the initial one
  minus the sum of effective speed times duration over the first \<open>k\<close> intervals
  (\<open>wifiSpeed + mobileSpeed\<close> on Connect, \<open>mobileSpeed\<close> otherwise) and the output holds
  the lines of exactly these \<open>k\<close> intervals. The test follows each decrement: the
  first interval of a non-empty sequence is always processed, whatever the initial
  payload; the payload was still positive after each earlier processed interval; and an
  interval is left unprocessed only when the payload had reached zero or less after a
  processed one, so that the later intervals change neither payload nor output.
\<close>

theorem SimulateDownload_accounting:
  "\<exists>k\<le>length states.
      remainingSize (SimulateDownload states wifiSpeed mobileSpeed g) =
        remainingSize g - (\<Sum>s\<leftarrow>take k states. effectiveSpeed wifiSpeed mobileSpeed s * T s)
    \<and> stdout (SimulateDownload states wifiSpeed mobileSpeed g) =
        stdout g @ concat (map (interval_log wifiSpeed mobileSpeed) (enumerate 0 (take k states)))
    \<and> (states \<noteq> [] \<longrightarrow> 0 < k)
    \<and> (\<forall>j. 0 < j \<and> j < k \<longrightarrow>
          0 < remainingSize g - (\<Sum>s\<leftarrow>take j states. effectiveSpeed wifiSpeed mobileSpeed s * T s))
    \<and> (k < length states \<longrightarrow>
          0 < k \<and> remainingSize (SimulateDownload states wifiSpeed mobileSpeed g) \<le> 0)"
proof -
  from loop_accounting [of states 0 wifiSpeed mobileSpeed g]
  obtain k where k: "k \<le> length states"
    and r: "remainingSize (SimulateDownload_loop 0 states wifiSpeed mobileSpeed g) =
              remainingSize g - (\<Sum>s\<leftarrow>take k states. effectiveSpeed wifiSpeed mobileSpeed s * T s)"
    and l: "stdout (SimulateDownload_loop 0 states wifiSpeed mobileSpeed g) =
              stdout g @ concat (map (interval_log wifiSpeed mobileSpeed) (enumerate 0 (take k states)))"
    and p: "\<forall>j. 0 < j \<and> j < k \<longrightarrow>
              0 < remainingSize g - (\<Sum>s\<leftarrow>take j states. effectiveSpeed wifiSpeed mobileSpeed s * T s)"
    and e: "k < length states \<longrightarrow>
              0 < k \<and> remainingSize (SimulateDownload_loop 0 states wifiSpeed mobileSpeed g) \<le> 0"
    by blast
  have f: "states \<noteq> [] \<longrightarrow> 0 < k"
  proof
    assume "states \<noteq> []"
    then have "0 < length states" by simp
    with k e show "0 < k" by (cases "k < length states") simp_all
  qed
  from k r l f p e show ?thesis
    unfolding SimulateDownload_def by blast
qed

theorem SimulateDownload_accounting_witness:
  "remainingSize (SimulateDownload
      [\<lparr>state = ''Connect'', T = 1\<rparr>, \<lparr>state = ''Disconnect'', T = 2\<rparr>, \<lparr>state = ''Connect'', T = 3\<rparr>]
      60 40 \<lparr>remainingSize = 150, stdout = []\<rparr>) = - 30
   \<and> stdout (SimulateDownload
      [\<lparr>state = ''Connect'', T = 1\<rparr>, \<lparr>state = ''Disconnect'', T = 2\<rparr>, \<lparr>state = ''Connect'', T = 3\<rparr>]
      60 40 \<lparr>remainingSize = 150, stdout = []\<rparr>) =
     [StateLine 1 ''Connect'' 1, DownloadLine 1 100, StateLine 2 ''Disconnect'' 2, DownloadLine 2 40]"
proof -
  let ?xs = "[\<lparr>state = ''Connect'', T = 1\<rparr>, \<lparr>state = ''Disconnect'', T = 2\<rparr>,
              \<lparr>state = ''Connect'', T = 3\<rparr>]"
  let ?g = "\<lparr>remainingSize = 150, stdout = []\<rparr>"
  let ?r = "SimulateDownload ?xs 60 40 ?g"
  from SimulateDownload_accounting [of ?xs 60 40 ?g]
  obtain k where k0: "k \<le> length ?xs"
    and r0: "remainingSize ?r =
               remainingSize ?g - (\<Sum>s\<leftarrow>take k ?xs. effectiveSpeed 60 40 s * T s)"
    and l0: "stdout ?r =
               stdout ?g @ concat (map (interval_log 60 40) (enumerate 0 (take k ?xs)))"
    and p: "\<forall>j. 0 < j \<and> j < k \<longrightarrow>
              0 < remainingSize ?g - (\<Sum>s\<leftarrow>take j ?xs. effectiveSpeed 60 40 s * T s)"
    and e0: "k < length ?xs \<longrightarrow> 0 < k \<and> remainingSize ?r \<le> 0"
    by blast
  from k0 have k: "k \<le> 3" by simp
  from r0 have r: "remainingSize ?r = 150 - (\<Sum>s\<leftarrow>take k ?xs. effectiveSpeed 60 40 s * T s)"
    by simp
  from l0 have l: "stdout ?r = concat (map (interval_log 60 40) (enumerate 0 (take k ?xs)))"
    by simp
  from e0 have e: "k < 3 \<longrightarrow> 0 < k \<and> remainingSize ?r \<le> 0" by simp
  from k have "k = 0 \<or> k = 1 \<or> k = 2 \<or> k = 3" by arith
  then have "k = 2"
  proof (elim disjE)
    assume "k = 0" with e show ?thesis by simp
  next
    assume "k = 1" with e r show ?thesis by (simp add: effectiveSpeed_def)
  next
    assume "k = 2" then show ?thesis .
  next
    assume "k = 3" with p [rule_format, of 2] show ?thesis by (simp add: effectiveSpeed_def)
  qed
  with r l show ?thesis
    by (simp add: effectiveSpeed_def interval_log_def)
qed

lemma effectiveSpeed_nonneg:
  "0 \<le> w \<Longrightarrow> 0 \<le> m \<Longrightarrow> 0 \<le> effectiveSpeed w m s"
  by (simp add: effectiveSpeed_def)

lemma loop_le:
  "0 \<le> w \<Longrightarrow> 0 \<le> m \<Longrightarrow> \<forall>s\<in>set xs. 0 \<le> T s \<Longrightarrow>
   remainingSize (SimulateDownload_loop i xs w m g) \<le> remainingSize g"
proof (induction xs arbitrary: i g)
  case Nil
  show ?case by simp
next
  case (Cons x xs)
  have dec: "0 \<le> effectiveSpeed w m x * T x"
    using Cons.prems by (simp add: effectiveSpeed_nonneg)
  have "remainingSize (SimulateDownload_loop (Suc i) xs w m (processed i x w m g))
          \<le> remainingSize (processed i x w m g)"
    using Cons.prems by (intro Cons.IH) simp_all
  with dec show ?case
    by (simp add: loop_Cons del: SimulateDownload_loop.simps)
qed

text \<open>
  C4. With non-negative speeds and durations the payload never grows: the payload after
  \<open>j + 1\<close> intervals of the sequence (the run on the first \<open>j + 1\<close> intervals) is at
  most the payload after \<open>j\<close> of them, and the payload at the end is at most the
  initial one.
\<close>

theorem remainingSize_nonincreasing:
  assumes "0 \<le> wifiSpeed" and "0 \<le> mobileSpeed" and "\<forall>s\<in>set states. 0 \<le> T s"
  shows "(\<forall>j<length states.
            remainingSize (SimulateDownload (take (Suc j) states) wifiSpeed mobileSpeed g)
              \<le> remainingSize (SimulateDownload (take j states) wifiSpeed mobileSpeed g))
         \<and> remainingSize (SimulateDownload states wifiSpeed mobileSpeed g) \<le> remainingSize g"
proof (intro conjI allI impI)
  fix j assume j: "j < length states"
  let ?g = "SimulateDownload_loop 0 (take j states) wifiSpeed mobileSpeed g"
  have nn: "0 \<le> T (states ! j)" using assms(3) j by simp
  have "remainingSize (SimulateDownload_loop (0 + length (take j states)) [states ! j]
           wifiSpeed mobileSpeed ?g) \<le> remainingSize ?g"
    using assms(1,2) nn by (intro loop_le) simp_all
  then show "remainingSize (SimulateDownload (take (Suc j) states) wifiSpeed mobileSpeed g)
              \<le> remainingSize (SimulateDownload (take j states) wifiSpeed mobileSpeed g)"
    unfolding SimulateDownload_def take_Suc_conv_app_nth [OF j] loop_append
    by simp
next
  show "remainingSize (SimulateDownload states wifiSpeed mobileSpeed g) \<le> remainingSize g"
    unfolding SimulateDownload_def using assms by (rule loop_le)
qed

theorem remainingSize_nonincreasing_witness:
  "(0::real) \<le> 60 \<and> (0::real) \<le> 40
   \<and> remainingSize (SimulateDownload [\<lparr>state = ''Connect'', T = 1\<rparr>, \<lparr>state = ''Disconnect'', T = 2\<rparr>]
         60 40 \<lparr>remainingSize = 150, stdout = []\<rparr>)
      \<le> remainingSize (SimulateDownload [\<lparr>state = ''Connect'', T = 1\<rparr>]
         60 40 \<lparr>remainingSize = 150, stdout = []\<rparr>)
   \<and> remainingSize (SimulateDownload [\<lparr>state = ''Connect'', T = 1\<rparr>, \<lparr>state = ''Disconnect'', T = 2\<rparr>]
         60 40 \<lparr>remainingSize = 150, stdout = []\<rparr>) \<le> 150"
proof -
  let ?xs = "[\<lparr>state = ''Connect'', T = 1\<rparr>, \<lparr>state = ''Disconnect'', T = 2\<rparr>]"
  have h: "\<forall>s\<in>set ?xs. 0 \<le> T s" by simp
  have w: "(0::real) \<le> 60" and m: "(0::real) \<le> 40" by simp_all
  from remainingSize_nonincreasing [OF w m h, of "\<lparr>remainingSize = 150, stdout = []\<rparr>"]
  have a: "\<forall>j<length ?xs.
            remainingSize (SimulateDownload (take (Suc j) ?xs) 60 40 \<lparr>remainingSize = 150, stdout = []\<rparr>)
              \<le> remainingSize (SimulateDownload (take j ?xs) 60 40 \<lparr>remainingSize = 150, stdout = []\<rparr>)"
    and b: "remainingSize (SimulateDownload ?xs 60 40 \<lparr>remainingSize = 150, stdout = []\<rparr>)
              \<le> remainingSize \<lparr>remainingSize = 150, stdout = []\<rparr>"
    by blast+
  from a [rule_format, of 1] b show ?thesis by simp
qed

text \<open>
  C6, as stated, fails: the test \<^verbatim>\<open>remainingSize <= 0\<close> follows the call of
  \<^verbatim>\<open>DownloadFile\<close>, so with an initial payload of zero the first interval is processed:
  the payload changes and the two lines of the interval are printed.
\<close>

theorem SimulateDownload_zero_payload_counterexample:
  "SimulateDownload [\<lparr>state = ''Connect'', T = 1\<rparr>] 60 40 \<lparr>remainingSize = 0, stdout = []\<rparr>
     = \<lparr>remainingSize = - 100, stdout = [StateLine 1 ''Connect'' 1, DownloadLine 1 100]\<rparr>
   \<and> SimulateDownload [\<lparr>state = ''Connect'', T = 1\<rparr>] 60 40 \<lparr>remainingSize = 0, stdout = []\<rparr>
     \<noteq> \<lparr>remainingSize = 0, stdout = []\<rparr>"
  by (simp add: SimulateDownload_def DownloadFile_def)

text \<open>
  C6, amended. When the initial payload is zero or less and the speeds and the first
  duration are non-negative, the simulator leaves the state unchanged on an empty
  sequence; on a non-empty sequence it processes exactly the first interval (the payload
  decreases by its effective speed times its duration, its two lines are printed) and
  returns without processing the later ones. In both cases the payload at return is zero
  or less, so that the run counts as complete.
\<close>

theorem SimulateDownload_nonpositive_payload:
  assumes "remainingSize g \<le> 0" and "0 \<le> wifiSpeed" and "0 \<le> mobileSpeed" and "0 \<le> T s"
  shows "SimulateDownload [] wifiSpeed mobileSpeed g = g
       \<and> downloadComplete (SimulateDownload [] wifiSpeed mobileSpeed g)
       \<and> SimulateDownload (s # ss) wifiSpeed mobileSpeed g = SimulateDownload [s] wifiSpeed mobileSpeed g
       \<and> remainingSize (SimulateDownload (s # ss) wifiSpeed mobileSpeed g) =
           remainingSize g - effectiveSpeed wifiSpeed mobileSpeed s * T s
       \<and> stdout (SimulateDownload (s # ss) wifiSpeed mobileSpeed g) =
           stdout g @ interval_log wifiSpeed mobileSpeed (0, s)
       \<and> downloadComplete (SimulateDownload (s # ss) wifiSpeed mobileSpeed g)"
proof -
  have "0 \<le> effectiveSpeed wifiSpeed mobileSpeed s * T s"
    using assms by (simp add: effectiveSpeed_nonneg)
  with assms(1) have "remainingSize (processed 0 s wifiSpeed mobileSpeed g) \<le> 0"
    by simp
  then have "SimulateDownload_loop 0 (s # ss') wifiSpeed mobileSpeed g
               = processed 0 s wifiSpeed mobileSpeed g" for ss'
    by (simp add: loop_Cons del: SimulateDownload_loop.simps)
  with assms(1) \<open>remainingSize (processed 0 s wifiSpeed mobileSpeed g) \<le> 0\<close>
  show ?thesis
    by (simp add: SimulateDownload_def downloadComplete_def del: SimulateDownload_loop.simps(2))
qed

theorem SimulateDownload_nonpositive_payload_witness:
  "(0::real) \<le> 0 \<and> (0::real) \<le> 60 \<and> (0::real) \<le> 40
   \<and> SimulateDownload [\<lparr>state = ''Connect'', T = 1\<rparr>, \<lparr>state = ''Disconnect'', T = 2\<rparr>] 60 40
        \<lparr>remainingSize = 0, stdout = []\<rparr>
      = SimulateDownload [\<lparr>state = ''Connect'', T = 1\<rparr>] 60 40 \<lparr>remainingSize = 0, stdout = []\<rparr>
   \<and> remainingSize (SimulateDownload [\<lparr>state = ''Connect'', T = 1\<rparr>, \<lparr>state = ''Disconnect'', T = 2\<rparr>]
        60 40 \<lparr>remainingSize = 0, stdout = []\<rparr>) = - 100
   \<and> downloadComplete (SimulateDownload [\<lparr>state = ''Connect'', T = 1\<rparr>, \<lparr>state = ''Disconnect'', T = 2\<rparr>]
        60 40 \<lparr>remainingSize = 0, stdout = []\<rparr>)"
proof -
  let ?g = "\<lparr>remainingSize = 0, stdout = []\<rparr>"
  let ?c = "\<lparr>state = ''Connect'', T = 1\<rparr>"
  let ?d = "\<lparr>state = ''Disconnect'', T = 2\<rparr>"
  have h1: "remainingSize ?g \<le> 0" and h2: "(0::real) \<le> 60" and h3: "(0::real) \<le> 40"
    and h4: "0 \<le> T ?c"
    by simp_all
  from SimulateDownload_nonpositive_payload [OF h1 h2 h3 h4, of "[?d]"]
  have a: "SimulateDownload [?c, ?d] 60 40 ?g = SimulateDownload [?c] 60 40 ?g"
    and b: "remainingSize (SimulateDownload [?c, ?d] 60 40 ?g) =
              remainingSize ?g - effectiveSpeed 60 40 ?c * T ?c"
    and c: "downloadComplete (SimulateDownload [?c, ?d] 60 40 ?g)"
    by blast+
  from b have b': "remainingSize (SimulateDownload [?c, ?d] 60 40 ?g) = - 100"
    by (simp add: effectiveSpeed_def)
  have t: "(0::real) \<le> 0 \<and> (0::real) \<le> 60 \<and> (0::real) \<le> 40" by simp
  from t a b' c show ?thesis by blast
qed




section \<open>Properties of the generator\<close>

lemma SumOfTinState_eq: "SumOfTinState xs = sum_list (map T xs)"
proof -
  have "foldl (\<lambda>sum s. sum + T s) a xs = a + sum_list (map T xs)" for a
    by (induction xs arbitrary: a) simp_all
  then show ?thesis by (simp add: SumOfTinState_def)
qed

lemma SumOfTinState_simps [simp]:
  "SumOfTinState [] = 0"
  "SumOfTinState (xs @ [x]) = SumOfTinState xs + T x"
  by (simp_all add: SumOfTinState_eq)

lemma InverseCDFExponential_nonneg:
  "0 \<le> val \<Longrightarrow> 0 \<le> u \<Longrightarrow> u < 1 \<Longrightarrow> 0 \<le> InverseCDFExponential u val"
proof -
  assume v: "0 \<le> val" and u: "0 \<le> u" "u < 1"
  then have "ln (1 - u) \<le> 0" by simp
  with v have "0 \<le> val * (- ln (1 - u))" by (intro mult_nonneg_nonneg) simp_all
  then show ?thesis by (simp add: InverseCDFExponential_def)
qed

lemma InverseCDFExponential_unit [simp]: "InverseCDFExponential (1 - exp (- 1)) val = val"
  by (simp add: InverseCDFExponential_def)

lemma InverseCDFExponential_half: "val / 2 \<le> InverseCDFExponential (1 / 2) val" if "0 \<le> val"
proof -
  have "ln (1 / 2 :: real) \<le> 1 / 2 - 1" by (rule ln_le_minus_one) simp
  then have "1 / 2 \<le> - ln (1 / 2 :: real)" by simp
  then have "val * (1 / 2) \<le> val * (- ln (1 / 2 :: real))" using that by (rule mult_left_mono)
  then show ?thesis by (simp add: InverseCDFExponential_def)
qed

subsection \<open>The clamping version\<close>

lemma GenerateBand_loop_sum:
  "SumOfTinState states < Ts \<Longrightarrow>
   GenerateBand_loop e0 e1 Ts cur states us = Some (xs, rest) \<Longrightarrow> SumOfTinState xs = Ts"
proof (induction us arbitrary: cur states)
  case Nil
  then show ?case by simp
next
  case (Cons u us)
  from Cons.prems show ?case
    by (auto simp: Let_def split: if_splits dest: Cons.IH [rotated])
qed

lemma GenerateBand_sums_to_Ts:
  "0 < Ts \<Longrightarrow> GenerateBand initialState e0 e1 Ts rand = Some (xs, rest) \<Longrightarrow> SumOfTinState xs = Ts"
  unfolding GenerateBand_def by (rule GenerateBand_loop_sum) simp_all

lemma GenerateBand_zero_session:
  assumes "0 \<le> e0" and "0 \<le> e1" and "0 \<le> u" and "u < 1"
  shows "GenerateBand initialState e0 e1 0 (u # us) = Some ([], us)"
proof -
  have "0 \<le> InverseCDFExponential u e0" and "0 \<le> InverseCDFExponential u e1"
    using assms by (simp_all add: InverseCDFExponential_nonneg)
  then show ?thesis
    by (simp add: GenerateBand_def Let_def)
qed

lemma kindOf_NextState: "kindOf (NextState cur) \<noteq> kindOf cur"
  by (simp add: kindOf_def NextState_def)

lemma GenerateBand_loop_step:
  "GenerateBand_loop e0 e1 Ts cur states (u # us) =
     (let t = InverseCDFExponential u (if cur = ''disconnect'' then e0 else e1);
          t = (if t > Ts then Ts else t)
      in if SumOfTinState states + t \<ge> Ts then
           Some (if Ts - SumOfTinState states > 0
                 then states @ [\<lparr>state = kindOf cur, T = Ts - SumOfTinState states\<rparr>]
                 else states, us)
         else GenerateBand_loop e0 e1 Ts (NextState cur) (states @ [\<lparr>state = kindOf cur, T = t\<rparr>]) us)"
  by (simp add: kindOf_def Let_def)

lemma GenerateBand_2nd_loop_step:
  "GenerateBand_2nd_loop e0 e1 Ts cur states (u # us) =
     (let t = InverseCDFExponential u (if cur = ''disconnect'' then e0 else e1)
      in if SumOfTinState states + t \<ge> Ts then
           Some (states @ [\<lparr>state = kindOf cur,
                            T = (if cur = ''disconnect'' then t else Ts - SumOfTinState states)\<rparr>], us)
         else GenerateBand_2nd_loop e0 e1 Ts (NextState cur) (states @ [\<lparr>state = kindOf cur, T = t\<rparr>]) us)"
  by (simp add: kindOf_def Let_def)

lemma kindOf_cases: "kindOf cur = ''Connect'' \<or> kindOf cur = ''Disconnect''"
  by (simp add: kindOf_def)

lemma GenerateBand_loop_alternates:
  assumes "distinct_adj (map state states)"
    and "\<forall>s\<in>set states. state s = ''Connect'' \<or> state s = ''Disconnect''"
    and "states = [] \<or> state (last states) \<noteq> kindOf cur"
    and "GenerateBand_loop e0 e1 Ts cur states us = Some (xs, rest)"
  shows "distinct_adj (map state xs)
       \<and> (\<forall>s\<in>set xs. state s = ''Connect'' \<or> state s = ''Disconnect'')"
  using assms
proof (induction us arbitrary: cur states)
  case Nil
  then show ?case by simp
next
  case (Cons u us)
  have adj: "distinct_adj (map state (states @ [\<lparr>state = kindOf cur, T = t\<rparr>]))" for t
    using Cons.prems(1,3) by (auto simp: distinct_adj_append_iff last_map)
  have lab: "\<forall>s\<in>set (states @ [\<lparr>state = kindOf cur, T = t\<rparr>]).
               state s = ''Connect'' \<or> state s = ''Disconnect''" for t
    using Cons.prems(2) kindOf_cases [of cur] by auto
  have nxt: "states @ [\<lparr>state = kindOf cur, T = t\<rparr>] = [] \<or>
             state (last (states @ [\<lparr>state = kindOf cur, T = t\<rparr>])) \<noteq> kindOf (NextState cur)" for t
    using kindOf_NextState [of cur] by simp
  from Cons.prems(4) show ?case
    unfolding GenerateBand_loop_step
    using Cons.prems(1,2) adj lab Cons.IH [OF adj lab nxt]
    by (auto simp: Let_def split: if_splits simp del: GenerateBand_loop.simps)
qed

lemma GenerateBand_loop_returns:
  assumes "0 < d"
    and "\<forall>u\<in>set us. d \<le> InverseCDFExponential u e0 \<and> d \<le> InverseCDFExponential u e1"
    and "0 \<le> SumOfTinState states" and "SumOfTinState states < Ts"
    and "Ts \<le> SumOfTinState states + real (length us) * d"
  shows "GenerateBand_loop e0 e1 Ts cur states us \<noteq> None"
  using assms
proof (induction us arbitrary: cur states)
  case Nil
  then show ?case by simp
next
  case (Cons u us)
  let ?t = "InverseCDFExponential u (if cur = ''disconnect'' then e0 else e1)"
  let ?c = "if ?t > Ts then Ts else ?t"
  have dt: "d \<le> ?t" using Cons.prems(2) by simp
  show ?case
  proof (cases "SumOfTinState states + ?c \<ge> Ts")
    case True
    then show ?thesis
      unfolding GenerateBand_loop_step by (simp add: Let_def del: GenerateBand_loop.simps)
  next
    case False
    with Cons.prems(3) have c: "?c = ?t" by (auto split: if_splits)
    let ?st = "states @ [\<lparr>state = kindOf cur, T = ?t\<rparr>]"
    have 1: "0 \<le> SumOfTinState ?st" using Cons.prems(1,3) dt by simp
    have 2: "SumOfTinState ?st < Ts" using False c by simp
    have "Ts \<le> SumOfTinState states + d + real (length us) * d"
      using Cons.prems(5) by (simp add: algebra_simps)
    with dt have 3: "Ts \<le> SumOfTinState ?st + real (length us) * d" by simp
    have 4: "\<forall>u\<in>set us. d \<le> InverseCDFExponential u e0 \<and> d \<le> InverseCDFExponential u e1"
      using Cons.prems(2) by simp
    have "GenerateBand_loop e0 e1 Ts (NextState cur) ?st us \<noteq> None"
      using Cons.prems(1) 4 1 2 3 by (rule Cons.IH)
    with False c show ?thesis
      unfolding GenerateBand_loop_step by (simp add: Let_def del: GenerateBand_loop.simps)
  qed
qed

subsection \<open>The version of second_method.go\<close>

lemma GenerateBand_2nd_loop_nonempty:
  "GenerateBand_2nd_loop e0 e1 Ts cur states us = Some (xs, rest) \<Longrightarrow> xs \<noteq> []"
proof (induction us arbitrary: cur states)
  case Nil
  then show ?case by simp
next
  case (Cons u us)
  let ?t = "InverseCDFExponential u (if cur = ''disconnect'' then e0 else e1)"
  show ?case
  proof (cases "SumOfTinState states + ?t \<ge> Ts")
    case True
    with Cons.prems show ?thesis
      unfolding GenerateBand_2nd_loop_step
      by (auto simp: Let_def simp del: GenerateBand_2nd_loop.simps)
  next
    case False
    with Cons.prems
    have "GenerateBand_2nd_loop e0 e1 Ts (NextState cur)
            (states @ [\<lparr>state = kindOf cur, T = ?t\<rparr>]) us = Some (xs, rest)"
      unfolding GenerateBand_2nd_loop_step
      by (simp add: Let_def del: GenerateBand_2nd_loop.simps)
    then show ?thesis by (rule Cons.IH)
  qed
qed

lemma GenerateBand_2nd_loop_returns:
  assumes "0 < d"
    and "\<forall>u\<in>set us. d \<le> InverseCDFExponential u e0 \<and> d \<le> InverseCDFExponential u e1"
    and "SumOfTinState states < Ts"
    and "Ts \<le> SumOfTinState states + real (length us) * d"
  shows "GenerateBand_2nd_loop e0 e1 Ts cur states us \<noteq> None"
  using assms
proof (induction us arbitrary: cur states)
  case Nil
  then show ?case by simp
next
  case (Cons u us)
  let ?t = "InverseCDFExponential u (if cur = ''disconnect'' then e0 else e1)"
  have dt: "d \<le> ?t" using Cons.prems(2) by simp
  show ?case
  proof (cases "SumOfTinState states + ?t \<ge> Ts")
    case True
    then show ?thesis
      unfolding GenerateBand_2nd_loop_step by (simp add: Let_def del: GenerateBand_2nd_loop.simps)
  next
    case False
    let ?st = "states @ [\<lparr>state = kindOf cur, T = ?t\<rparr>]"
    have 2: "SumOfTinState ?st < Ts" using False by simp
    have "Ts \<le> SumOfTinState states + d + real (length us) * d"
      using Cons.prems(4) by (simp add: algebra_simps)
    with dt have 3: "Ts \<le> SumOfTinState ?st + real (length us) * d" by simp
    have 4: "\<forall>u\<in>set us. d \<le> InverseCDFExponential u e0 \<and> d \<le> InverseCDFExponential u e1"
      using Cons.prems(2) by simp
    have "GenerateBand_2nd_loop e0 e1 Ts (NextState cur) ?st us \<noteq> None"
      using Cons.prems(1) 4 2 3 by (rule Cons.IH)
    with False show ?thesis
      unfolding GenerateBand_2nd_loop_step
      by (simp add: Let_def del: GenerateBand_2nd_loop.simps)
  qed
qed

subsection \<open>Claims about the generator\<close>

text \<open>
  C1. The clamping version returns sequences whose durations sum to \<open>Ts\<close>
  (\<open>GenerateBand_sums_to_Ts\<close>). The version of second_method.go does not: its disconnect
  branch appends the raw dwell time. With the draw \<open>1/2\<close> and a mean of 60 the dwell
  time is \<open>60 * ln 2\<close>, more than 30, and a session of 10 gets one interval of
  that length.
\<close>

theorem GenerateBand_2nd_overshoots:
  "GenerateBand_2nd ''disconnect'' 60 40 10 [1 / 2] =
     Some ([\<lparr>state = ''Disconnect'', T = InverseCDFExponential (1 / 2) 60\<rparr>], [])
   \<and> 30 \<le> SumOfTinState [\<lparr>state = ''Disconnect'', T = InverseCDFExponential (1 / 2) 60\<rparr>]"
proof -
  have "60 / 2 \<le> InverseCDFExponential (1 / 2) 60"
    by (rule InverseCDFExponential_half) simp
  then show ?thesis
    by (simp add: GenerateBand_2nd_def SumOfTinState_eq Let_def)
qed

text \<open>
  C3. In every sequence that the generator returns, whatever the initial state string,
  no two adjacent intervals have the same kind, and every kind is \<open>Connect\<close> or
  \<open>Disconnect\<close>.
\<close>

theorem GenerateBand_alternates:
  "GenerateBand initialState expectedValueT0 expectedValueT1 Ts rand = Some (xs, rest) \<Longrightarrow>
   distinct_adj (map state xs) \<and> (\<forall>s\<in>set xs. state s = ''Connect'' \<or> state s = ''Disconnect'')"
  unfolding GenerateBand_def by (rule GenerateBand_loop_alternates [where states = "[]"]) simp_all

theorem GenerateBand_alternates_witness:
  "GenerateBand ''connect'' 60 40 100 [1 - exp (- 1), 1 - exp (- 1), 1 - exp (- 1)] =
     Some ([\<lparr>state = ''Connect'', T = 40\<rparr>, \<lparr>state = ''Disconnect'', T = 60\<rparr>], [1 - exp (- 1)])
   \<and> distinct_adj (map state [\<lparr>state = ''Connect'', T = 40\<rparr>, \<lparr>state = ''Disconnect'', T = 60\<rparr>])"
proof -
  have h: "GenerateBand ''connect'' 60 40 100 [1 - exp (- 1), 1 - exp (- 1), 1 - exp (- 1)] =
     Some ([\<lparr>state = ''Connect'', T = 40\<rparr>, \<lparr>state = ''Disconnect'', T = 60\<rparr>], [1 - exp (- 1)])"
    by (simp add: GenerateBand_def Let_def NextState_def SumOfTinState_eq)
  from GenerateBand_alternates [OF h] h show ?thesis by blast
qed

text \<open>
  C5. With \<open>Ts = 0\<close> the clamping version returns the empty sequence
  (\<open>GenerateBand_zero_session\<close>). The version of second_method.go returns one interval:
  the disconnect branch appends the raw dwell time before its test, the connect branch
  appends the remainder \<open>0\<close>.
\<close>

theorem GenerateBand_2nd_zero_session:
  "GenerateBand_2nd ''disconnect'' 60 40 0 [1 / 2] =
     Some ([\<lparr>state = ''Disconnect'', T = InverseCDFExponential (1 / 2) 60\<rparr>], [])
   \<and> GenerateBand_2nd ''connect'' 60 40 0 [1 / 2] = Some ([\<lparr>state = ''Connect'', T = 0\<rparr>], [])"
proof -
  have "60 / 2 \<le> InverseCDFExponential (1 / 2) 60" and "40 / 2 \<le> InverseCDFExponential (1 / 2) 40"
    by (rule InverseCDFExponential_half, simp)+
  then show ?thesis
    by (simp add: GenerateBand_2nd_def Let_def SumOfTinState_eq)
qed

text \<open>
  C10. For a session duration \<open>Ts > 0\<close>, every sequence that either version of the
  generator returns has at least one interval, whatever the initial state string and the
  means. The generator does return when the draws suffice: if every raw dwell time is
  at least \<open>d > 0\<close> and \<open>Ts / d\<close> draws are available, the loop reaches its
  \<^verbatim>\<open>break\<close>.
\<close>

theorem GenerateBand_nonempty:
  assumes "0 < Ts"
  shows "(\<forall>xs rest. GenerateBand initialState expectedValueT0 expectedValueT1 Ts rand = Some (xs, rest)
            \<longrightarrow> xs \<noteq> [])
       \<and> (\<forall>xs rest. GenerateBand_2nd initialState expectedValueT0 expectedValueT1 Ts rand = Some (xs, rest)
            \<longrightarrow> xs \<noteq> [])
       \<and> (0 < d
          \<and> (\<forall>u\<in>set rand. d \<le> InverseCDFExponential u expectedValueT0
                          \<and> d \<le> InverseCDFExponential u expectedValueT1)
          \<and> Ts \<le> real (length rand) * d
          \<longrightarrow> GenerateBand initialState expectedValueT0 expectedValueT1 Ts rand \<noteq> None
            \<and> GenerateBand_2nd initialState expectedValueT0 expectedValueT1 Ts rand \<noteq> None)"
proof (intro conjI allI impI)
  fix xs rest
  assume "GenerateBand initialState expectedValueT0 expectedValueT1 Ts rand = Some (xs, rest)"
  with assms have "SumOfTinState xs = Ts" by (rule GenerateBand_sums_to_Ts)
  with assms show "xs \<noteq> []" by auto
next
  fix xs rest
  assume "GenerateBand_2nd initialState expectedValueT0 expectedValueT1 Ts rand = Some (xs, rest)"
  then show "xs \<noteq> []"
    unfolding GenerateBand_2nd_def by (rule GenerateBand_2nd_loop_nonempty)
next
  assume h: "0 < d
          \<and> (\<forall>u\<in>set rand. d \<le> InverseCDFExponential u expectedValueT0
                          \<and> d \<le> InverseCDFExponential u expectedValueT1)
          \<and> Ts \<le> real (length rand) * d"
  with assms show "GenerateBand initialState expectedValueT0 expectedValueT1 Ts rand \<noteq> None"
    unfolding GenerateBand_def by (intro GenerateBand_loop_returns [where d = d]) simp_all
next
  assume h: "0 < d
          \<and> (\<forall>u\<in>set rand. d \<le> InverseCDFExponential u expectedValueT0
                          \<and> d \<le> InverseCDFExponential u expectedValueT1)
          \<and> Ts \<le> real (length rand) * d"
  with assms show "GenerateBand_2nd initialState expectedValueT0 expectedValueT1 Ts rand \<noteq> None"
    unfolding GenerateBand_2nd_def by (intro GenerateBand_2nd_loop_returns [where d = d]) simp_all
qed

theorem GenerateBand_nonempty_witness:
  "(0::real) < 100
   \<and> GenerateBand ''connect'' 60 40 100 [1 - exp (- 1), 1 - exp (- 1), 1 - exp (- 1)] \<noteq> None
   \<and> GenerateBand_2nd ''connect'' 60 40 100 [1 - exp (- 1), 1 - exp (- 1), 1 - exp (- 1)] \<noteq> None
   \<and> GenerateBand ''connect'' 60 40 100 [1 - exp (- 1), 1 - exp (- 1), 1 - exp (- 1)] =
       Some ([\<lparr>state = ''Connect'', T = 40\<rparr>, \<lparr>state = ''Disconnect'', T = 60\<rparr>], [1 - exp (- 1)])
   \<and> [\<lparr>state = ''Connect'', T = 40\<rparr>, \<lparr>state = ''Disconnect'', T = 60\<rparr>] \<noteq> []"
proof -
  let ?rand = "[1 - exp (- 1), 1 - exp (- 1), 1 - exp (- 1) :: real]"
  let ?xs = "[\<lparr>state = ''Connect'', T = 40\<rparr>, \<lparr>state = ''Disconnect'', T = 60\<rparr>]"
  have ts: "(0::real) < 100" by simp
  have d: "(0::real) < 40
          \<and> (\<forall>u\<in>set ?rand. 40 \<le> InverseCDFExponential u 60 \<and> 40 \<le> InverseCDFExponential u 40)
          \<and> 100 \<le> real (length ?rand) * 40"
    by simp
  have h: "GenerateBand ''connect'' 60 40 100 ?rand = Some (?xs, [1 - exp (- 1)])"
    by (simp add: GenerateBand_def Let_def NextState_def SumOfTinState_eq)
  from GenerateBand_nonempty [OF ts, of "''connect''" 60 40 ?rand 40]
  have a: "\<forall>xs rest. GenerateBand ''connect'' 60 40 100 ?rand = Some (xs, rest) \<longrightarrow> xs \<noteq> []"
    and b: "0 < (40::real)
          \<and> (\<forall>u\<in>set ?rand. 40 \<le> InverseCDFExponential u 60 \<and> 40 \<le> InverseCDFExponential u 40)
          \<and> 100 \<le> real (length ?rand) * 40
          \<longrightarrow> GenerateBand ''connect'' 60 40 100 ?rand \<noteq> None
            \<and> GenerateBand_2nd ''connect'' 60 40 100 ?rand \<noteq> None"
    by blast+
  from b d have c: "GenerateBand ''connect'' 60 40 100 ?rand \<noteq> None
            \<and> GenerateBand_2nd ''connect'' 60 40 100 ?rand \<noteq> None"
    by (rule mp)
  from a h have e: "?xs \<noteq> []" by blast
  from ts c h e show ?thesis by blast
qed

section \<open>Properties of the bandwidth flag and of the samplers\<close>

text \<open>
  C7, as stated, fails in its first part: \<^verbatim>\<open>MeasureBandwidth\<close> has no test of
  \<^verbatim>\<open>len(states)\<close>. On the empty sequence the total is \<open>0\<close> and the division
  \<^verbatim>\<open>totalb / float64(len(states))\<close> is carried out as \<open>0 / 0\<close>, which gives NaN.
\<close>

theorem avgBandwidth_empty_counterexample:
  "MeasureBandwidth_totalb [] 60 40 = 0 \<and> real (length ([] :: State list)) = 0
   \<and> avgBandwidth [] 60 40 = NaN"
  by (simp add: avgBandwidth_def MeasureBandwidth_totalb_def fdiv_def)

text \<open>
  C7, amended. Without a guard, the flag of an empty sequence is still \<open>0\<close>: the
  average is NaN and the comparison \<^verbatim>\<open>avgBandwidth > 40\<close> is false on a NaN. The
  simulator leaves payload and output unchanged on the empty sequence, so that the run
  is complete only if the payload was zero or less before.
\<close>

theorem MeasureBandwidth_empty:
  "MeasureBandwidth [] wifiSpeed mobileSpeed = 0
   \<and> SimulateDownload [] wifiSpeed mobileSpeed g = g
   \<and> downloadComplete (SimulateDownload [] wifiSpeed mobileSpeed g) = (remainingSize g \<le> 0)"
  by (simp add: MeasureBandwidth_def avgBandwidth_def MeasureBandwidth_totalb_def fdiv_def
      SimulateDownload_def downloadComplete_def not_less)

text \<open>
  C8, as stated, fails: neither sampler draws again. With the draws \<open>0\<close> and \<open>1/2\<close> to
  come, \<^verbatim>\<open>Pareto\<close> takes the first one only and returns \<open>+Inf\<close>;
  \<^verbatim>\<open>InverseCDFExponential\<close> is a function of the \<open>u\<close> it is given and returns
  \<open>+Inf\<close> at \<open>u = 1\<close>.
\<close>

theorem sampler_degenerate_counterexample:
  "Pareto 2 2500 [0, 1 / 2] = Some (PosInf, [1 / 2])
   \<and> InverseCDFExponential_f64 1 60 = PosInf"
  by (simp add: fdiv_def InverseCDFExponential_f64_def)

text \<open>
  C8, amended. The samplers do not resample. \<^verbatim>\<open>Pareto\<close> (shape \<open>alpha > 0\<close>) takes
  exactly one draw \<open>u\<close> and returns \<open>xm / u powr (1 / alpha)\<close>, a finite value,
  when \<open>u > 0\<close>, and \<open>+Inf\<close> when \<open>u = 0\<close> and \<open>xm > 0\<close>.
  \<^verbatim>\<open>InverseCDFExponential\<close> returns the finite value \<open>- val * ln (1 - u)\<close> when
  \<open>u < 1\<close>, and \<open>+Inf\<close> when \<open>u = 1\<close> and \<open>val > 0\<close>.
\<close>

theorem sampler_single_draw:
  "(0 < alpha \<and> 0 < u \<longrightarrow>
      Pareto alpha xm (u # us) = Some (Finite (xm / u powr (1 / alpha)), us))
   \<and> (0 < alpha \<and> 0 < xm \<longrightarrow> Pareto alpha xm (0 # us) = Some (PosInf, us))
   \<and> (u < 1 \<longrightarrow> InverseCDFExponential_f64 u val = Finite (- val * ln (1 - u)))
   \<and> (0 < val \<longrightarrow> InverseCDFExponential_f64 1 val = PosInf)"
  by (simp add: fdiv_def InverseCDFExponential_f64_def InverseCDFExponential_def)

theorem sampler_single_draw_witness:
  "(0::real) < 2 \<and> (0::real) < 1 / 4 \<and> (0::real) < 2500 \<and> (0::real) < 1 \<and> (0::real) < 60
   \<and> Pareto 2 2500 [1 / 4, 1 / 2] = Some (Finite 5000, [1 / 2])
   \<and> Pareto 2 2500 [0, 1 / 2] = Some (PosInf, [1 / 2])
   \<and> InverseCDFExponential_f64 0 60 = Finite 0
   \<and> InverseCDFExponential_f64 1 60 = PosInf"
proof -
  have sq: "(1 / 4 :: real) powr (1 / 2) = 1 / 2"
  proof -
    have "(1 / 4 :: real) powr (1 / 2) = sqrt (1 / 4)" by (simp add: powr_half_sqrt)
    also have "\<dots> = 1 / 2" by (simp add: real_sqrt_divide)
    finally show ?thesis .
  qed
  have v: "2500 / (1 / 4 :: real) powr (1 / 2) = 5000" by (simp add: sq)
  have h1: "(0::real) < 2 \<and> (0::real) < 1 / 4" and h2: "(0::real) < 2 \<and> (0::real) < 2500"
    and h3: "(0::real) < 1" and h4: "(0::real) < 60"
    by simp_all
  from sampler_single_draw [of 2 "1 / 4" 2500 "[1 / 2]" 60] h1 h2 h4
  have a: "Pareto 2 2500 [1 / 4, 1 / 2] = Some (Finite (2500 / (1 / 4) powr (1 / 2)), [1 / 2])"
    and b: "Pareto 2 2500 [0, 1 / 2] = Some (PosInf, [1 / 2])"
    and d: "InverseCDFExponential_f64 1 60 = PosInf"
    by blast+
  from sampler_single_draw [of 2 0 2500 "[]" 60] h3
  have "InverseCDFExponential_f64 0 60 = Finite (- 60 * ln (1 - 0))" by blast
  then have c: "InverseCDFExponential_f64 0 60 = Finite 0" by (simp only: diff_zero ln_one mult_zero_right)
  from a have a': "Pareto 2 2500 [1 / 4, 1 / 2] = Some (Finite 5000, [1 / 2])"
    unfolding v .
  have t: "(0::real) < 2 \<and> (0::real) < 1 / 4 \<and> (0::real) < 2500 \<and> (0::real) < 1 \<and> (0::real) < 60"
    by simp
  from t a' b c d show ?thesis by blast
qed

end
